theory Spec2Isabelle
  imports Complex_Main
begin

section \<open>Black-Scholes pricing, Greeks and implied volatility\<close>

text \<open>
  A shallow embedding of \<^verbatim>\<open>option_price_black_scholes.py\<close>.

  Numbers are modelled as mathematical reals: the embedding describes the formulas the
  module evaluates, not the rounding of IEEE double arithmetic, and the overflow of the
  double range has no counterpart. Every exception the arithmetic of the module can raise
  on real arguments is a value of type \<open>error\<close>: a true division by zero raises
  \<open>ZeroDivisionError\<close>, \<^verbatim>\<open>math.log\<close> and \<^verbatim>\<open>math.sqrt\<close> raise \<open>ValueError\<close>
  outside their domain, reading a local variable that was never assigned raises
  \<open>UnboundLocalError\<close>. \<open>RuntimeError\<close> is what a root finder raises when it does not
  converge.
\<close>

subsection \<open>Exceptions and arithmetic that can raise\<close>

datatype error = ZeroDivisionError | ValueError | UnboundLocalError | RuntimeError

text \<open>Sequencing of two computations that may raise: the first exception wins.\<close>

definition and_then :: "error + 'a \<Rightarrow> ('a \<Rightarrow> error + 'b) \<Rightarrow> error + 'b" where
  "and_then m k = (case m of Inl e \<Rightarrow> Inl e | Inr v \<Rightarrow> k v)"

text \<open>Python's \<^verbatim>\<open>a / b\<close> on floats.\<close>

definition truediv :: "real \<Rightarrow> real \<Rightarrow> error + real" where
  "truediv a b = (if b = 0 then Inl ZeroDivisionError else Inr (a / b))"

text \<open>\<^verbatim>\<open>math.log\<close>: a math domain error for a non-positive argument.\<close>

definition math_log :: "real \<Rightarrow> error + real" where
  "math_log x = (if x \<le> 0 then Inl ValueError else Inr (ln x))"

text \<open>\<^verbatim>\<open>math.sqrt\<close>: a math domain error for a negative argument.\<close>

definition math_sqrt :: "real \<Rightarrow> error + real" where
  "math_sqrt x = (if x < 0 then Inl ValueError else Inr (sqrt x))"

text \<open>
  A float as the module returns it: \<^verbatim>\<open>math.nan\<close> is the only non-number the module
  produces by itself.
\<close>

datatype pyfloat = Float real | NaN

subsection \<open>The standard normal distribution\<close>

text \<open>
  Modelled from the spec: \<^verbatim>\<open>scipy.stats.norm\<close> is a library outside the repository.
  Section 6 of the specification names its two functions as the standard normal density
  \<open>\<phi>\<close> and the standard normal cumulative distribution function \<open>\<Phi>\<close>. The density is
  \<open>exp (- x\<^sup>2 / 2) / sqrt (2 \<pi>)\<close>; the distribution function is given by its Maclaurin
  series \<open>1/2 + (\<Sum>n. (-1)^n x^(2n+1) / (2^n n! (2n+1))) / sqrt (2 \<pi>)\<close>, the antiderivative
  of the density with value \<open>1/2\<close> at \<open>0\<close>.
\<close>

definition norm_pdf :: "real \<Rightarrow> real" where
  \<comment> \<open>Modelled from the spec: \<^verbatim>\<open>norm.pdf\<close>, the standard normal density.\<close>
  "norm_pdf x = exp (- (x ^ 2) / 2) / sqrt (2 * pi)"

definition cdf_coeff :: "nat \<Rightarrow> real" where
  \<comment> \<open>Modelled from the spec: the coefficients of the series of \<^verbatim>\<open>norm.cdf\<close>.\<close>
  "cdf_coeff n = (- 1 / 2) ^ n / (fact n * (2 * real n + 1))"

definition norm_cdf :: "real \<Rightarrow> real" where
  \<comment> \<open>Modelled from the spec: \<^verbatim>\<open>norm.cdf\<close>, the standard normal distribution function.\<close>
  "norm_cdf x = 1 / 2 + x * (\<Sum>n. cdf_coeff n * (x ^ 2) ^ n) / sqrt (2 * pi)"

subsection \<open>Pricing\<close>

definition black_scholes_call :: "real \<Rightarrow> real \<Rightarrow> real \<Rightarrow> real \<Rightarrow> real \<Rightarrow> error + real" where
  "black_scholes_call S K r T sigma =
     and_then (truediv S K) (\<lambda>q.
     and_then (math_log q) (\<lambda>l.
     and_then (math_sqrt T) (\<lambda>sT.
     and_then (truediv (l + (r + 0.5 * sigma ^ 2) * T) (sigma * sT)) (\<lambda>d1.
     and_then (math_sqrt T) (\<lambda>sT'.
       let d2 = d1 - sigma * sT';
           call_price = S * norm_cdf d1 - K * exp (- r * T) * norm_cdf d2
       in Inr call_price)))))"

definition black_scholes_put :: "real \<Rightarrow> real \<Rightarrow> real \<Rightarrow> real \<Rightarrow> real \<Rightarrow> error + real" where
  "black_scholes_put S K r T sigma =
     and_then (truediv S K) (\<lambda>q.
     and_then (math_log q) (\<lambda>l.
     and_then (math_sqrt T) (\<lambda>sT.
     and_then (truediv (l + (r + 0.5 * sigma ^ 2) * T) (sigma * sT)) (\<lambda>d1.
     and_then (math_sqrt T) (\<lambda>sT'.
       let d2 = d1 - sigma * sT';
           put_price = K * exp (- r * T) * norm_cdf (- d2) - S * norm_cdf (- d1)
       in Inr put_price)))))"

subsection \<open>Implied volatility\<close>

text \<open>
  The objective functions of the two root searches. In the source each is a closure named
  \<^verbatim>\<open>difference\<close> over the arguments of the enclosing function; here the captured
  variables are parameters.
\<close>

definition call_difference :: "real \<Rightarrow> real \<Rightarrow> real \<Rightarrow> real \<Rightarrow> real \<Rightarrow> real \<Rightarrow> error + real" where
  "call_difference S K r T market_price sigma =
     and_then (black_scholes_call S K r T sigma) (\<lambda>p. Inr (p - market_price))"

definition put_difference :: "real \<Rightarrow> real \<Rightarrow> real \<Rightarrow> real \<Rightarrow> real \<Rightarrow> real \<Rightarrow> error + real" where
  "put_difference S K r T market_price sigma =
     and_then (black_scholes_put S K r T sigma) (\<lambda>p. Inr (p - market_price))"

text \<open>
  \<^verbatim>\<open>scipy.optimize.brentq\<close> is a library function outside the repository, so the root
  finder is a parameter \<open>brentq\<close> of the two solvers: it takes the objective and the two
  ends of the bracket and returns a root or raises. The \<^verbatim>\<open>try\<close> block catches every
  exception of the search, those of the objective included, and returns \<open>0\<close>.
\<close>

type_synonym root_finder = "(real \<Rightarrow> error + real) \<Rightarrow> real \<Rightarrow> real \<Rightarrow> error + real"

definition implied_volatility_call ::
  "root_finder \<Rightarrow> real \<Rightarrow> real \<Rightarrow> real \<Rightarrow> real \<Rightarrow> real \<Rightarrow> real \<Rightarrow> error + real" where
  "implied_volatility_call brentq S K r T market_price sigma_est =
     (case brentq (\<lambda>sigma. call_difference S K r T market_price sigma) 0.01 5.0 of
        Inl err \<Rightarrow> Inr 0
      | Inr implied_volatility \<Rightarrow> Inr (implied_volatility * 100))"

definition implied_volatility_put ::
  "root_finder \<Rightarrow> real \<Rightarrow> real \<Rightarrow> real \<Rightarrow> real \<Rightarrow> real \<Rightarrow> real \<Rightarrow> error + real" where
  "implied_volatility_put brentq S K r T market_price sigma_est =
     (case brentq (\<lambda>sigma. put_difference S K r T market_price sigma) 0.01 5.0 of
        Inl err \<Rightarrow> Inr 0
      | Inr implied_volatility \<Rightarrow> Inr (implied_volatility * 100))"

subsection \<open>Greeks\<close>

text \<open>
  \<^verbatim>\<open>theta\<close> is assigned only in the two branches of the \<^verbatim>\<open>if\<close>/\<^verbatim>\<open>elif\<close>; with any
  other selector it stays unbound (\<open>None\<close> below) and the \<^verbatim>\<open>return\<close> statement, which
  evaluates \<^verbatim>\<open>vega/100\<close> first and \<^verbatim>\<open>theta/365\<close> second, raises.
\<close>

definition calculate_theta_and_vega ::
  "real \<Rightarrow> real \<Rightarrow> real \<Rightarrow> real \<Rightarrow> real \<Rightarrow> string \<Rightarrow> error + (pyfloat \<times> pyfloat)" where
  "calculate_theta_and_vega S K r T sigma opt_type =
     (if sigma = 0 then Inr (NaN, NaN)
      else
        and_then (truediv S K) (\<lambda>q.
        and_then (math_log q) (\<lambda>l.
        and_then (math_sqrt T) (\<lambda>sT.
        and_then (truediv (l + (r + 0.5 * sigma ^ 2) * T) (sigma * sT)) (\<lambda>d1.
        and_then (math_sqrt T) (\<lambda>sT'.
          let d2 = d1 - sigma * sT' in
          and_then
            (if opt_type = ''c'' then
               and_then (math_sqrt T) (\<lambda>s.
               and_then (truediv (S * norm_pdf d1 * sigma) (2 * s)) (\<lambda>t.
                 Inr (Some (- t - r * K * exp (- r * T) * norm_cdf d2))))
             else if opt_type = ''p'' then
               and_then (math_sqrt T) (\<lambda>s.
               and_then (truediv (S * norm_pdf (- d1) * sigma) (2 * s)) (\<lambda>t.
                 Inr (Some (- t + r * K * exp (- r * T) * norm_cdf (- d2)))))
             else Inr None) (\<lambda>theta.
          and_then (math_sqrt T) (\<lambda>s.
            let vega = S * norm_pdf d1 * s in
            (case theta of
               None \<Rightarrow> Inl UnboundLocalError
             | Some th \<Rightarrow> Inr (Float (vega / 100), Float (th / 365)))))))))))"

subsection \<open>The root finder's contract and a reference root finder\<close>

text \<open>
  Modelled from the spec: the bracketed scalar root finder of Section 6, which stands for
  \<^verbatim>\<open>scipy.optimize.brentq\<close>. A root finder meets the contract when
  \<^item> it raises when the objective has the same strict sign at both ends of the bracket
    (the sign-change precondition is violated);
  \<^item> a value it returns lies in the bracket;
  \<^item> on an objective that is defined and continuous on the bracket, with a sign change
    between the two ends, it returns a value within the tolerance of an exact root.
  The tolerances are the defaults of \<^verbatim>\<open>brentq\<close>: \<open>xtol = 2e-12\<close> and
  \<open>rtol = 4 * 2^-52\<close>.
\<close>

definition brentq_xtol :: real where
  \<comment> \<open>Modelled from the spec: the absolute tolerance of the root finder.\<close>
  "brentq_xtol = 2 / 10 ^ 12"

definition brentq_rtol :: real where
  \<comment> \<open>Modelled from the spec: the relative tolerance of the root finder.\<close>
  "brentq_rtol = 4 / 2 ^ 52"

definition root_finder_contract :: "root_finder \<Rightarrow> bool" where
  \<comment> \<open>Modelled from the spec: what Section 6 requires of the bracketed root finder.\<close>
  "root_finder_contract solve \<longleftrightarrow>
     (\<forall>f a b fa fb. f a = Inr fa \<and> f b = Inr fb \<and> 0 < fa * fb \<longrightarrow> solve f a b = Inl ValueError) \<and>
     (\<forall>f a b x. a \<le> b \<and> solve f a b = Inr x \<longrightarrow> a \<le> x \<and> x \<le> b) \<and>
     (\<forall>f g a b. a < b \<and> (\<forall>x. a \<le> x \<and> x \<le> b \<longrightarrow> f x = Inr (g x)) \<and> continuous_on {a..b} g
          \<and> g a * g b \<le> 0 \<longrightarrow>
        (\<exists>x x0. solve f a b = Inr x \<and> a \<le> x0 \<and> x0 \<le> b \<and> g x0 = 0
           \<and> \<bar>x - x0\<bar> \<le> brentq_xtol + brentq_rtol * \<bar>x\<bar>))"

text \<open>
  A reference root finder that meets the contract: it evaluates the objective at both
  ends, returns an end that is a root, raises \<open>ValueError\<close> without a sign change, and
  otherwise halves the bracket until it is no wider than \<open>xtol\<close>. An exception of the
  objective ends the search. It is the root finder at which the solvers are evaluated on
  concrete inputs.
\<close>

fun bisect :: "nat \<Rightarrow> (real \<Rightarrow> error + real) \<Rightarrow> real \<Rightarrow> real \<Rightarrow> real \<Rightarrow> error + real" where
  "bisect 0 f a fa b = Inr a"
| "bisect (Suc n) f a fa b =
     (let m = (a + b) / 2 in
      and_then (f m) (\<lambda>fm.
        if fm = 0 then Inr m
        else if 0 < fa * fm then bisect n f m fm b
        else bisect n f a fa m))"

definition bisection_root_finder :: root_finder where
  "bisection_root_finder f a b =
     and_then (f a) (\<lambda>fa.
     and_then (f b) (\<lambda>fb.
       if fa = 0 then Inr a
       else if fb = 0 then Inr b
       else if 0 < fa * fb then Inl ValueError
       else bisect (nat \<lceil>log 2 ((b - a) / brentq_xtol)\<rceil>) f a fa b))"

subsection \<open>The formulas of the specification\<close>

text \<open>
  The quantities of Section 4.1 of the specification, written from its words; the
  theorems below compare them with what the code computes.
\<close>

definition spec_d1 :: "real \<Rightarrow> real \<Rightarrow> real \<Rightarrow> real \<Rightarrow> real \<Rightarrow> real" where
  "spec_d1 S K r T sigma = (ln (S / K) + (r + 0.5 * sigma ^ 2) * T) / (sigma * sqrt T)"

definition spec_d2 :: "real \<Rightarrow> real \<Rightarrow> real \<Rightarrow> real \<Rightarrow> real \<Rightarrow> real" where
  "spec_d2 S K r T sigma = spec_d1 S K r T sigma - sigma * sqrt T"

definition spec_price_call :: "real \<Rightarrow> real \<Rightarrow> real \<Rightarrow> real \<Rightarrow> real \<Rightarrow> real" where
  "spec_price_call S K r T sigma =
     S * norm_cdf (spec_d1 S K r T sigma) - K * exp (- r * T) * norm_cdf (spec_d2 S K r T sigma)"

definition spec_price_put :: "real \<Rightarrow> real \<Rightarrow> real \<Rightarrow> real \<Rightarrow> real \<Rightarrow> real" where
  "spec_price_put S K r T sigma =
     K * exp (- r * T) * norm_cdf (- spec_d2 S K r T sigma) - S * norm_cdf (- spec_d1 S K r T sigma)"

definition spec_vega :: "real \<Rightarrow> real \<Rightarrow> real \<Rightarrow> real \<Rightarrow> real \<Rightarrow> real" where
  "spec_vega S K r T sigma = S * norm_pdf (spec_d1 S K r T sigma) * sqrt T / 100"

definition spec_theta_call :: "real \<Rightarrow> real \<Rightarrow> real \<Rightarrow> real \<Rightarrow> real \<Rightarrow> real" where
  "spec_theta_call S K r T sigma =
     (- S * norm_pdf (spec_d1 S K r T sigma) * sigma / (2 * sqrt T)
      - r * K * exp (- r * T) * norm_cdf (spec_d2 S K r T sigma)) / 365"

definition spec_theta_put :: "real \<Rightarrow> real \<Rightarrow> real \<Rightarrow> real \<Rightarrow> real \<Rightarrow> real" where
  "spec_theta_put S K r T sigma =
     (- S * norm_pdf (- spec_d1 S K r T sigma) * sigma / (2 * sqrt T)
      + r * K * exp (- r * T) * norm_cdf (- spec_d2 S K r T sigma)) / 365"

section \<open>Properties\<close>

subsection \<open>Valid inputs raise nothing\<close>

lemma norm_cdf_minus: "norm_cdf (- x) = 1 - norm_cdf x"
  by (simp add: norm_cdf_def field_simps)

lemma and_then_Inr [simp]: "and_then (Inr v) k = k v"
  by (simp add: and_then_def)

lemma and_then_Inl [simp]: "and_then (Inl e) k = Inl e"
  by (simp add: and_then_def)

lemma black_scholes_call_valid:
  assumes "0 < S" "0 < K" "0 < T" "0 < sigma"
  shows "black_scholes_call S K r T sigma = Inr (spec_price_call S K r T sigma)"
proof -
  have "\<not> S / K \<le> 0" using assms by (simp add: divide_le_0_iff)
  then show ?thesis
    using assms by (simp add: black_scholes_call_def truediv_def math_log_def math_sqrt_def Let_def
        spec_price_call_def spec_d1_def spec_d2_def)
qed

lemma black_scholes_put_valid:
  assumes "0 < S" "0 < K" "0 < T" "0 < sigma"
  shows "black_scholes_put S K r T sigma = Inr (spec_price_put S K r T sigma)"
proof -
  have "\<not> S / K \<le> 0" using assms by (simp add: divide_le_0_iff)
  then show ?thesis
    using assms by (simp add: black_scholes_put_def truediv_def math_log_def math_sqrt_def Let_def
        spec_price_put_def spec_d1_def spec_d2_def)
qed

lemma spec_parity: "spec_price_call S K r T sigma - spec_price_put S K r T sigma = S - K * exp (- r * T)"
  by (simp add: spec_price_call_def spec_price_put_def norm_cdf_minus algebra_simps)

subsection \<open>The distribution function is an antiderivative of the density\<close>

text \<open>
  The series converges everywhere and can be differentiated term by term; its derivative
  is the density. With the value \<open>1/2\<close> at \<open>0\<close> this determines \<open>norm_cdf\<close> as the
  standard normal distribution function.
\<close>

lemma cdf_series_summable: "summable (\<lambda>n. cdf_coeff n * y ^ n)"
proof (rule summable_comparison_test'[where N = 0])
  show "summable (\<lambda>n. inverse (fact n) * \<bar>y / 2\<bar> ^ n)"
    by (rule summable_exp)
next
  fix n :: nat
  have "1 \<le> 2 * real n + 1" by simp
  have "norm (cdf_coeff n * y ^ n) = (\<bar>y / 2\<bar> ^ n / fact n) / (2 * real n + 1)"
    by (simp add: cdf_coeff_def norm_mult norm_divide norm_power power_divide power_mult_distrib abs_mult power_abs mult.assoc)
  also have "\<dots> \<le> (\<bar>y / 2\<bar> ^ n / fact n) / 1"
    by (rule divide_left_mono) (simp_all)
  finally show "norm (cdf_coeff n * y ^ n) \<le> inverse (fact n) * \<bar>y / 2\<bar> ^ n"
    by (simp add: field_simps)
qed

lemma cdf_series_deriv:
  "DERIV (\<lambda>y. \<Sum>n. cdf_coeff n * y ^ n) y :> (\<Sum>n. diffs cdf_coeff n * y ^ n)"
  by (rule termdiffs_strong[where K = "\<bar>y\<bar> + 1"]) (simp_all add: cdf_series_summable)

lemma cdf_series_ode:
  "(\<Sum>n. cdf_coeff n * y ^ n) + 2 * y * (\<Sum>n. diffs cdf_coeff n * y ^ n) = exp (- y / 2)"
proof -
  have sd: "summable (\<lambda>n. diffs cdf_coeff n * y ^ n)"
    by (rule termdiff_converges_all) (rule cdf_series_summable)
  have A: "(\<lambda>n. cdf_coeff n * y ^ n) sums (\<Sum>n. cdf_coeff n * y ^ n)"
    by (rule summable_sums[OF cdf_series_summable])
  have B: "(\<lambda>n. 2 * y * (of_nat n * cdf_coeff n * y ^ (n - Suc 0))) sums
      (2 * y * (\<Sum>n. diffs cdf_coeff n * y ^ n))"
    by (rule sums_mult[OF diffs_equiv[OF sd]])
  have C: "(\<lambda>n. cdf_coeff n * y ^ n + 2 * y * (of_nat n * cdf_coeff n * y ^ (n - Suc 0))) sums
      ((\<Sum>n. cdf_coeff n * y ^ n) + 2 * y * (\<Sum>n. diffs cdf_coeff n * y ^ n))"
    by (rule sums_add[OF A B])
  have tm: "cdf_coeff n * y ^ n + 2 * y * (of_nat n * cdf_coeff n * y ^ (n - Suc 0))
      = (- y / 2) ^ n /\<^sub>R fact n" for n
  proof (cases n)
    case 0
    then show ?thesis by (simp add: cdf_coeff_def)
  next
    case (Suc m)
    have ne: "2 * real n + 1 \<noteq> 0"
      by (metis add_nonneg_pos mult_nonneg_nonneg of_nat_0_le_iff order_less_irrefl zero_le_numeral zero_less_one)
    have "cdf_coeff n * y ^ n + 2 * y * (of_nat n * cdf_coeff n * y ^ (n - Suc 0))
        = cdf_coeff n * y ^ n * (2 * real n + 1)"
      using Suc by (simp add: algebra_simps)
    also have "\<dots> = (- 1 / 2) ^ n * y ^ n / fact n"
      using ne unfolding cdf_coeff_def by (simp add: divide_simps)
    also have "\<dots> = (- y / 2) ^ n /\<^sub>R fact n"
    proof -
      have "- (y / 2) = y * (- (1 / 2))" by simp
      then have "(- (y / 2)) ^ n = y ^ n * (- (1 / 2)) ^ n"
        by (simp only: power_mult_distrib)
      then show ?thesis by (simp add: field_simps)
    qed
    finally show ?thesis .
  qed
  have D: "(\<lambda>n. (- y / 2) ^ n /\<^sub>R fact n) sums
      ((\<Sum>n. cdf_coeff n * y ^ n) + 2 * y * (\<Sum>n. diffs cdf_coeff n * y ^ n))"
    using C by (simp only: tm)
  show ?thesis
    by (rule sums_unique2[OF D exp_converges])
qed

lemma DERIV_norm_cdf: "DERIV norm_cdf x :> norm_pdf x"
proof -
  let ?h = "\<lambda>y::real. \<Sum>n. cdf_coeff n * y ^ n"
  let ?h' = "\<lambda>y::real. \<Sum>n. diffs cdf_coeff n * y ^ n"
  have "DERIV (\<lambda>x. ?h (x ^ 2)) x :> ?h' (x ^ 2) * (2 * x)"
    by (rule DERIV_chain'[OF _ cdf_series_deriv]) (auto intro!: derivative_eq_intros)
  then have "DERIV (\<lambda>x. x * ?h (x ^ 2)) x :> 1 * ?h (x ^ 2) + ?h' (x ^ 2) * (2 * x) * x"
    by (rule DERIV_mult[OF DERIV_ident])
  then have "DERIV (\<lambda>x. x * ?h (x ^ 2)) x :> ?h (x ^ 2) + 2 * (x ^ 2) * ?h' (x ^ 2)"
    by (simp add: power2_eq_square mult_ac)
  then have "DERIV (\<lambda>x. x * ?h (x ^ 2) / sqrt (2 * pi)) x
      :> (?h (x ^ 2) + 2 * (x ^ 2) * ?h' (x ^ 2)) / sqrt (2 * pi)"
    by (rule DERIV_cdivide)
  then have "DERIV (\<lambda>x. 1 / 2 + x * ?h (x ^ 2) / sqrt (2 * pi)) x
      :> 0 + (?h (x ^ 2) + 2 * (x ^ 2) * ?h' (x ^ 2)) / sqrt (2 * pi)"
    by (rule DERIV_add[OF DERIV_const])
  then have "DERIV (\<lambda>x. 1 / 2 + x * ?h (x ^ 2) / sqrt (2 * pi)) x :> norm_pdf x"
    by (simp only: cdf_series_ode norm_pdf_def add_0_left)
  moreover have "norm_cdf = (\<lambda>x. 1 / 2 + x * ?h (x ^ 2) / sqrt (2 * pi))"
    by (rule ext) (simp add: norm_cdf_def)
  ultimately show ?thesis by simp
qed

lemma norm_cdf_zero: "norm_cdf 0 = 1 / 2"
  by (simp add: norm_cdf_def)

lemma norm_pdf_pos: "0 < norm_pdf x"
  by (simp add: norm_pdf_def)


subsection \<open>The call formula increases with the volatility\<close>

text \<open>
  Over the reals the derivative of the call formula of the specification in the
  volatility is \<open>S \<phi>(d1) sqrt T\<close>, which is positive, so the formula is strictly
  increasing and has at most one root against any market price. This is a fact about the
  formula in exact arithmetic; it says nothing about values rounded to doubles, where the
  distribution function saturates at \<open>1\<close>.
\<close>

lemma spec_d1_scaled:
  assumes "0 < T" "sigma \<noteq> 0"
  shows "spec_d1 S K r T sigma * (sigma * sqrt T) = ln (S / K) + (r + sigma ^ 2 / 2) * T"
  using assms by (simp add: spec_d1_def)

lemma pdf_identity:
  assumes "0 < S" "0 < K" "0 < T" "sigma \<noteq> 0"
  shows "K * exp (- r * T) * norm_pdf (spec_d2 S K r T sigma) = S * norm_pdf (spec_d1 S K r T sigma)"
proof -
  let ?d1 = "spec_d1 S K r T sigma"
  let ?d2 = "spec_d2 S K r T sigma"
  have sq: "sqrt T * sqrt T = T" using assms by simp
  have "?d2 ^ 2 = ?d1 ^ 2 - 2 * (?d1 * (sigma * sqrt T)) + sigma ^ 2 * (sqrt T * sqrt T)"
    by (simp add: spec_d2_def power2_eq_square algebra_simps)
  also have "\<dots> = ?d1 ^ 2 - 2 * (ln (S / K) + (r + sigma ^ 2 / 2) * T) + sigma ^ 2 * T"
    by (simp only: spec_d1_scaled[OF assms(3,4)] sq)
  finally have "- (?d2 ^ 2) / 2 = - (?d1 ^ 2) / 2 + (ln (S / K) + r * T)"
    by (simp add: algebra_simps)
  then have "exp (- (?d2 ^ 2) / 2) = exp (- (?d1 ^ 2) / 2) * (exp (ln (S / K)) * exp (r * T))"
    by (simp only: exp_add)
  moreover have "exp (ln (S / K)) = S / K"
    using assms by simp
  ultimately have e: "exp (- (?d2 ^ 2) / 2) = exp (- (?d1 ^ 2) / 2) * (S / K * exp (r * T))"
    by simp
  have "K * exp (- r * T) * norm_pdf ?d2
      = (K * (S / K)) * (exp (- r * T) * exp (r * T)) * (exp (- (?d1 ^ 2) / 2) / sqrt (2 * pi))"
    unfolding norm_pdf_def e by (simp add: algebra_simps)
  also have "K * (S / K) = S" using assms by simp
  also have "exp (- r * T) * exp (r * T) = 1"
    by (simp add: exp_add[symmetric])
  finally show ?thesis by (simp add: norm_pdf_def)
qed

lemma DERIV_spec_d1:
  assumes "0 < T" "sigma \<noteq> 0"
  shows "DERIV (\<lambda>s. spec_d1 S K r T s) sigma :>
     (sigma * T * (sigma * sqrt T) - (ln (S / K) + (r + 0.5 * sigma ^ 2) * T) * sqrt T) / (sigma * sqrt T) ^ 2"
proof -
  have "DERIV (\<lambda>x. (a + (r + 0.5 * x ^ 2) * T) / (x * s)) sigma :>
     (sigma * T * (sigma * s) - (a + (r + 0.5 * sigma ^ 2) * T) * s) / (sigma * s) ^ 2"
    if "s \<noteq> 0" for a s :: real
    using that assms(2) by (auto intro!: derivative_eq_intros simp: power2_eq_square field_simps)
  from this[of "sqrt T" "ln (S / K)"] assms(1) show ?thesis
    unfolding spec_d1_def by simp
qed

lemma DERIV_spec_price_call:
  assumes "0 < S" "0 < K" "0 < T" "sigma \<noteq> 0"
  shows "DERIV (\<lambda>s. spec_price_call S K r T s) sigma :> S * norm_pdf (spec_d1 S K r T sigma) * sqrt T"
proof -
  let ?D = "(sigma * T * (sigma * sqrt T) - (ln (S / K) + (r + 0.5 * sigma ^ 2) * T) * sqrt T) / (sigma * sqrt T) ^ 2"
  let ?d1 = "spec_d1 S K r T sigma"
  let ?d2 = "spec_d2 S K r T sigma"
  have d1: "DERIV (\<lambda>s. spec_d1 S K r T s) sigma :> ?D"
    by (rule DERIV_spec_d1[OF assms(3,4)])
  have "DERIV (\<lambda>s. spec_d1 S K r T s - s * sqrt T) sigma :> ?D - 1 * sqrt T"
    by (intro DERIV_diff d1 DERIV_cmult_right DERIV_ident)
  then have d2: "DERIV (\<lambda>s. spec_d2 S K r T s) sigma :> ?D - sqrt T"
    by (simp add: spec_d2_def[abs_def])
  have c1: "DERIV (\<lambda>s. norm_cdf (spec_d1 S K r T s)) sigma :> norm_pdf ?d1 * ?D"
    by (rule DERIV_chain'[OF d1 DERIV_norm_cdf])
  have c2: "DERIV (\<lambda>s. norm_cdf (spec_d2 S K r T s)) sigma :> norm_pdf ?d2 * (?D - sqrt T)"
    by (rule DERIV_chain'[OF d2 DERIV_norm_cdf])
  have main: "DERIV (\<lambda>s. S * norm_cdf (spec_d1 S K r T s) - K * exp (- r * T) * norm_cdf (spec_d2 S K r T s)) sigma
      :> S * (norm_pdf ?d1 * ?D) - K * exp (- r * T) * (norm_pdf ?d2 * (?D - sqrt T))"
    by (intro DERIV_diff DERIV_cmult c1 c2)
  have "S * (norm_pdf ?d1 * ?D) - K * exp (- r * T) * (norm_pdf ?d2 * (?D - sqrt T))
      = S * norm_pdf ?d1 * ?D - (K * exp (- r * T) * norm_pdf ?d2) * (?D - sqrt T)"
    by (simp only: mult.assoc)
  also have "\<dots> = S * norm_pdf ?d1 * sqrt T"
    unfolding pdf_identity[OF assms] by (simp add: algebra_simps)
  finally have eq: "S * (norm_pdf ?d1 * ?D) - K * exp (- r * T) * (norm_pdf ?d2 * (?D - sqrt T))
      = S * norm_pdf ?d1 * sqrt T" .
  show ?thesis
    unfolding spec_price_call_def using main by (simp only: eq)
qed

lemma spec_price_call_strict_mono:
  assumes "0 < S" "0 < K" "0 < T" "0 < s1" "s1 < s2"
  shows "spec_price_call S K r T s1 < spec_price_call S K r T s2"
proof (rule DERIV_pos_imp_increasing[OF assms(5)])
  fix x assume "s1 \<le> x" "x \<le> s2"
  then have "x \<noteq> 0" using assms by simp
  have "0 < S * norm_pdf (spec_d1 S K r T x) * sqrt T"
    using assms by (simp add: norm_pdf_pos)
  then show "\<exists>y. DERIV (\<lambda>s. spec_price_call S K r T s) x :> y \<and> 0 < y"
    using DERIV_spec_price_call[OF assms(1-3) \<open>x \<noteq> 0\<close>] by blast
qed


subsection \<open>The reference root finder meets the contract\<close>

lemma bisect_range:
  "a \<le> b \<Longrightarrow> bisect n f a fa b = Inr x \<Longrightarrow> a \<le> x \<and> x \<le> b"
proof (induction n arbitrary: a fa b)
  case 0
  then show ?case by simp
next
  case (Suc n)
  let ?m = "(a + b) / 2"
  have m: "a \<le> ?m" "?m \<le> b" using Suc.prems(1) by simp_all
  from Suc.prems(2) obtain fm where fm: "f ?m = Inr fm"
    by (cases "f ?m") (simp_all add: Let_def)
  show ?case
  proof (cases "fm = 0")
    case True
    with Suc.prems(2) fm have "x = ?m" by (simp add: Let_def)
    with m show ?thesis by simp
  next
    case nz: False
    show ?thesis
    proof (cases "0 < fa * fm")
      case True
      with Suc.prems(2) fm nz have "bisect n f ?m fm b = Inr x" by (simp add: Let_def)
      from Suc.IH[OF m(2) this] m show ?thesis by simp
    next
      case False
      with Suc.prems(2) fm nz have "bisect n f a fa ?m = Inr x" by (simp add: Let_def)
      from Suc.IH[OF m(1) this] m show ?thesis by simp
    qed
  qed
qed

lemma sign_change_root:
  fixes g :: "real \<Rightarrow> real"
  assumes "a \<le> b" "continuous_on {a..b} g" "g a * g b \<le> 0"
  shows "\<exists>x0. a \<le> x0 \<and> x0 \<le> b \<and> g x0 = 0"
proof (cases "g a \<le> 0")
  case True
  show ?thesis
  proof (cases "g a = 0")
    case True
    then show ?thesis using assms(1) by auto
  next
    case False
    with True have "g a < 0" by simp
    with assms(3) have "0 \<le> g b"
      by (metis linorder_not_less mult_neg_neg)
    from IVT'[OF True this assms(1,2)] show ?thesis .
  qed
next
  case False
  then have "0 < g a" by simp
  with assms(3) have "g b \<le> 0"
    by (metis linorder_not_less mult_pos_pos)
  from IVT2'[OF this _ assms(1,2)] False show ?thesis by simp
qed

lemma sign_transfer:
  fixes x y z :: real
  assumes "0 < x * y" "x * z < 0"
  shows "y * z < 0"
  using assms by (auto simp: zero_less_mult_iff mult_less_0_iff)

lemma bisect_converges:
  fixes g :: "real \<Rightarrow> real"
  assumes "a < b" "\<And>x. a \<le> x \<Longrightarrow> x \<le> b \<Longrightarrow> f x = Inr (g x)" "continuous_on {a..b} g" "g a * g b < 0"
  shows "\<exists>x x0. bisect n f a (g a) b = Inr x \<and> a \<le> x0 \<and> x0 \<le> b \<and> g x0 = 0 \<and> \<bar>x - x0\<bar> \<le> (b - a) / 2 ^ n"
  using assms
proof (induction n arbitrary: a b)
  case 0
  from sign_change_root[of a b g] 0 obtain x0 where "a \<le> x0" "x0 \<le> b" "g x0 = 0"
    by (metis less_eq_real_def)
  then show ?case by (intro exI[of _ a] exI[of _ x0]) simp
next
  case (Suc n)
  let ?m = "(a + b) / 2"
  have m: "a < ?m" "?m < b" using Suc.prems(1) by simp_all
  have fm: "f ?m = Inr (g ?m)" using Suc.prems(2) m by simp
  show ?case
  proof (cases "g ?m = 0")
    case True
    then have "bisect (Suc n) f a (g a) b = Inr ?m" using fm by (simp add: Let_def)
    then show ?thesis using True m by (intro exI[of _ ?m]) simp
  next
    case nz: False
    show ?thesis
    proof (cases "0 < g a * g ?m")
      case True
      then have step: "bisect (Suc n) f a (g a) b = bisect n f ?m (g ?m) b"
        using fm nz by (simp add: Let_def)
      have sc: "g ?m * g b < 0"
        by (rule sign_transfer[OF True Suc.prems(4)])
      have "\<exists>x x0. bisect n f ?m (g ?m) b = Inr x \<and> ?m \<le> x0 \<and> x0 \<le> b \<and> g x0 = 0
          \<and> \<bar>x - x0\<bar> \<le> (b - ?m) / 2 ^ n"
      proof (rule Suc.IH[OF m(2) _ _ sc])
        show "f x = Inr (g x)" if "?m \<le> x" "x \<le> b" for x
          using that m Suc.prems(2)[of x] by simp
        show "continuous_on {?m..b} g"
          by (rule continuous_on_subset[OF Suc.prems(3)]) (use m in auto)
      qed
      then obtain x x0 where r: "bisect n f ?m (g ?m) b = Inr x" "?m \<le> x0" "x0 \<le> b" "g x0 = 0"
          "\<bar>x - x0\<bar> \<le> (b - ?m) / 2 ^ n" by blast
      have "(b - ?m) / 2 ^ n = (b - a) / 2 ^ Suc n" by (simp add: field_simps)
      with r m step show ?thesis
        by (intro exI[of _ x] exI[of _ x0]) simp
    next
      case False
      then have step: "bisect (Suc n) f a (g a) b = bisect n f a (g a) ?m"
        using fm nz by (simp add: Let_def)
      have "g a \<noteq> 0" using Suc.prems(4) by auto
      with False nz have sc: "g a * g ?m < 0"
        by (auto simp: linorder_neq_iff mult_less_0_iff zero_less_mult_iff)
      have "\<exists>x x0. bisect n f a (g a) ?m = Inr x \<and> a \<le> x0 \<and> x0 \<le> ?m \<and> g x0 = 0
          \<and> \<bar>x - x0\<bar> \<le> (?m - a) / 2 ^ n"
      proof (rule Suc.IH[OF m(1) _ _ sc])
        show "f x = Inr (g x)" if "a \<le> x" "x \<le> ?m" for x
          using that m Suc.prems(2)[of x] by simp
        show "continuous_on {a..?m} g"
          by (rule continuous_on_subset[OF Suc.prems(3)]) (use m in auto)
      qed
      then obtain x x0 where r: "bisect n f a (g a) ?m = Inr x" "a \<le> x0" "x0 \<le> ?m" "g x0 = 0"
          "\<bar>x - x0\<bar> \<le> (?m - a) / 2 ^ n" by blast
      have "(?m - a) / 2 ^ n = (b - a) / 2 ^ Suc n" by (simp add: field_simps)
      with r m step show ?thesis
        by (intro exI[of _ x] exI[of _ x0]) simp
    qed
  qed
qed

lemma bisect_fuel:
  assumes "a < b"
  shows "(b - a) / 2 ^ nat \<lceil>log 2 ((b - a) / brentq_xtol)\<rceil> \<le> brentq_xtol"
proof -
  let ?y = "(b - a) / brentq_xtol"
  let ?n = "nat \<lceil>log 2 ?y\<rceil>"
  have tol: "0 < brentq_xtol" by (simp add: brentq_xtol_def)
  then have y: "0 < ?y" using assms by simp
  have "log 2 ?y \<le> real ?n" by (rule real_nat_ceiling_ge)
  then have "2 powr (log 2 ?y) \<le> 2 powr (real ?n)" by simp
  then have "?y \<le> 2 ^ ?n" using y by (simp add: powr_realpow)
  then have "b - a \<le> 2 ^ ?n * brentq_xtol" using tol by (simp add: pos_divide_le_eq)
  then show ?thesis by (simp add: pos_divide_le_eq mult.commute)
qed

lemma bisection_meets_contract: "root_finder_contract bisection_root_finder"
  unfolding root_finder_contract_def
proof (intro conjI allI impI)
  fix f :: "real \<Rightarrow> error + real" and a b fa fb :: real
  assume "f a = Inr fa \<and> f b = Inr fb \<and> 0 < fa * fb"
  then show "bisection_root_finder f a b = Inl ValueError"
    by (auto simp: bisection_root_finder_def)
next
  fix f :: "real \<Rightarrow> error + real" and a b x :: real
  assume h: "a \<le> b \<and> bisection_root_finder f a b = Inr x"
  then obtain fa fb where fa: "f a = Inr fa" and fb: "f b = Inr fb"
    by (cases "f a"; cases "f b") (simp_all add: bisection_root_finder_def)
  show "a \<le> x" "x \<le> b"
    using h fa fb bisect_range[of a b _ f fa x]
    by (auto simp: bisection_root_finder_def split: if_splits)
next
  fix f :: "real \<Rightarrow> error + real" and g :: "real \<Rightarrow> real" and a b :: real
  assume h: "a < b \<and> (\<forall>x. a \<le> x \<and> x \<le> b \<longrightarrow> f x = Inr (g x)) \<and> continuous_on {a..b} g \<and> g a * g b \<le> 0"
  then have fa: "f a = Inr (g a)" and fb: "f b = Inr (g b)" by simp_all
  have tol: "0 \<le> brentq_xtol + brentq_rtol * \<bar>y\<bar>" for y
    by (simp add: brentq_xtol_def brentq_rtol_def)
  show "\<exists>x x0. bisection_root_finder f a b = Inr x \<and> a \<le> x0 \<and> x0 \<le> b \<and> g x0 = 0
      \<and> \<bar>x - x0\<bar> \<le> brentq_xtol + brentq_rtol * \<bar>x\<bar>"
  proof (cases "g a = 0")
    case True
    then show ?thesis using h fa fb tol
      by (intro exI[of _ a]) (simp add: bisection_root_finder_def)
  next
    case ga: False
    show ?thesis
    proof (cases "g b = 0")
      case True
      then show ?thesis using h fa fb ga tol
        by (intro exI[of _ b]) (simp add: bisection_root_finder_def)
    next
      case gb: False
      have sc: "g a * g b < 0" using h ga gb by (simp add: less_eq_real_def)
      let ?n = "nat \<lceil>log 2 ((b - a) / brentq_xtol)\<rceil>"
      have run: "bisection_root_finder f a b = bisect ?n f a (g a) b"
        using fa fb ga gb sc by (simp add: bisection_root_finder_def)
      from bisect_converges[of a b f g ?n] h sc
      obtain x x0 where r: "bisect ?n f a (g a) b = Inr x" "a \<le> x0" "x0 \<le> b" "g x0 = 0"
        "\<bar>x - x0\<bar> \<le> (b - a) / 2 ^ ?n" by blast
      have "\<bar>x - x0\<bar> \<le> brentq_xtol" using r(5) bisect_fuel[of a b] h by simp
      also have "\<dots> \<le> brentq_xtol + brentq_rtol * \<bar>x\<bar>" by (simp add: brentq_rtol_def)
      finally show ?thesis using r run by (intro exI[of _ x] exI[of _ x0]) simp
    qed
  qed
qed

subsection \<open>Greeks: the three outcomes\<close>

lemma greeks_zero_sigma: "calculate_theta_and_vega S K r T 0 opt_type = Inr (NaN, NaN)"
  by (simp add: calculate_theta_and_vega_def)

lemma greeks_d1:
  assumes "0 < S" "0 < K" "0 < T" "sigma \<noteq> 0"
  shows "calculate_theta_and_vega S K r T sigma opt_type =
     (let d1 = spec_d1 S K r T sigma; d2 = spec_d2 S K r T sigma in
      if opt_type = ''c'' then
        Inr (Float (S * norm_pdf d1 * sqrt T / 100),
             Float ((- (S * norm_pdf d1 * sigma / (2 * sqrt T)) - r * K * exp (- r * T) * norm_cdf d2) / 365))
      else if opt_type = ''p'' then
        Inr (Float (S * norm_pdf d1 * sqrt T / 100),
             Float ((- (S * norm_pdf (- d1) * sigma / (2 * sqrt T)) + r * K * exp (- r * T) * norm_cdf (- d2)) / 365))
      else Inl UnboundLocalError)"
proof -
  have "\<not> S / K \<le> 0" using assms by (simp add: divide_le_0_iff)
  then show ?thesis
    using assms
    by (simp add: calculate_theta_and_vega_def truediv_def math_log_def math_sqrt_def Let_def
        spec_d1_def spec_d2_def)
qed

lemma greeks_raise:
  assumes "opt_type \<noteq> ''c''" "opt_type \<noteq> ''p''" "sigma \<noteq> 0"
  shows "calculate_theta_and_vega S K r T sigma opt_type =
     Inl (if K = 0 then ZeroDivisionError
          else if S / K \<le> 0 then ValueError
          else if T < 0 then ValueError
          else if T = 0 then ZeroDivisionError
          else UnboundLocalError)"
  using assms
  by (simp add: calculate_theta_and_vega_def truediv_def math_log_def math_sqrt_def Let_def)

subsection \<open>The solvers under the contract\<close>

lemma call_difference_valid:
  assumes "0 < S" "0 < K" "0 < T" "0 < sigma"
  shows "call_difference S K r T market_price sigma = Inr (spec_price_call S K r T sigma - market_price)"
  by (simp add: call_difference_def black_scholes_call_valid[OF assms])

lemma put_difference_valid:
  assumes "0 < S" "0 < K" "0 < T" "0 < sigma"
  shows "put_difference S K r T market_price sigma = Inr (spec_price_put S K r T sigma - market_price)"
  by (simp add: put_difference_def black_scholes_put_valid[OF assms])

lemma contract_sign_error:
  assumes "root_finder_contract solve" "f a = Inr fa" "f b = Inr fb" "0 < fa * fb"
  shows "solve f a b = Inl ValueError"
  using assms unfolding root_finder_contract_def by blast

lemma contract_range:
  assumes "root_finder_contract solve" "a \<le> b" "solve f a b = Inr x"
  shows "a \<le> x \<and> x \<le> b"
  using assms unfolding root_finder_contract_def by blast

lemma contract_converges:
  assumes "root_finder_contract solve" "a < b" "\<And>x. a \<le> x \<Longrightarrow> x \<le> b \<Longrightarrow> f x = Inr (g x)"
    "continuous_on {a..b} g" "g a * g b \<le> 0"
  shows "\<exists>x x0. solve f a b = Inr x \<and> a \<le> x0 \<and> x0 \<le> b \<and> g x0 = 0
           \<and> \<bar>x - x0\<bar> \<le> brentq_xtol + brentq_rtol * \<bar>x\<bar>"
proof -
  from assms(1) have "\<forall>f g a b. a < b \<and> (\<forall>x. a \<le> x \<and> x \<le> b \<longrightarrow> f x = Inr (g x)) \<and> continuous_on {a..b} g
          \<and> g a * g b \<le> 0 \<longrightarrow>
        (\<exists>x x0. solve f a b = Inr x \<and> a \<le> x0 \<and> x0 \<le> b \<and> g x0 = 0
           \<and> \<bar>x - x0\<bar> \<le> brentq_xtol + brentq_rtol * \<bar>x\<bar>)"
    unfolding root_finder_contract_def by blast
  from this[rule_format, of a b f g] assms(2-5) show ?thesis by blast
qed

lemma call_solver_failure:
  assumes "brentq (call_difference S K r T market_price) 0.01 5 = Inl e"
  shows "implied_volatility_call brentq S K r T market_price sigma_est = Inr 0"
  using assms by (simp add: implied_volatility_call_def)

lemma put_solver_failure:
  assumes "brentq (put_difference S K r T market_price) 0.01 5 = Inl e"
  shows "implied_volatility_put brentq S K r T market_price sigma_est = Inr 0"
  using assms by (simp add: implied_volatility_put_def)

lemma call_solver_success:
  assumes "brentq (call_difference S K r T market_price) 0.01 5 = Inr x"
  shows "implied_volatility_call brentq S K r T market_price sigma_est = Inr (x * 100)"
  using assms by (simp add: implied_volatility_call_def)

lemma put_solver_success:
  assumes "brentq (put_difference S K r T market_price) 0.01 5 = Inr x"
  shows "implied_volatility_put brentq S K r T market_price sigma_est = Inr (x * 100)"
  using assms by (simp add: implied_volatility_put_def)

lemma spec_price_call_continuous:
  assumes "0 < S" "0 < K" "0 < T" "0 < a"
  shows "continuous_on {a..b} (\<lambda>s. spec_price_call S K r T s - c)"
proof (rule DERIV_continuous_on)
  fix x assume "x \<in> {a..b}"
  then have "x \<noteq> 0" using assms(4) by simp
  have "DERIV (\<lambda>s. spec_price_call S K r T s - c) x :> S * norm_pdf (spec_d1 S K r T x) * sqrt T - 0"
    by (intro DERIV_diff DERIV_spec_price_call[OF assms(1-3) \<open>x \<noteq> 0\<close>] DERIV_const)
  then show "((\<lambda>s. spec_price_call S K r T s - c) has_real_derivative
      S * norm_pdf (spec_d1 S K r T x) * sqrt T - 0) (at x within {a..b})"
    by (rule has_field_derivative_at_within)
qed

lemma spec_price_call_inj:
  assumes "0 < S" "0 < K" "0 < T" "0 < s1" "0 < s2"
    "spec_price_call S K r T s1 = spec_price_call S K r T s2"
  shows "s1 = s2"
proof (rule ccontr)
  assume "s1 \<noteq> s2"
  then consider "s1 < s2" | "s2 < s1" by linarith
  then show False
  proof cases
    case 1
    from spec_price_call_strict_mono[OF assms(1-4) this, of r] assms(6) show False by simp
  next
    case 2
    from spec_price_call_strict_mono[OF assms(1-3,5) this, of r] assms(6) show False by simp
  qed
qed

lemma spec_price_call_mono:
  assumes "0 < S" "0 < K" "0 < T" "0 < s1" "s1 \<le> s2"
  shows "spec_price_call S K r T s1 \<le> spec_price_call S K r T s2"
  using spec_price_call_strict_mono[OF assms(1-4), of s2 r] assms(5)
  by (cases "s1 = s2") simp_all

lemma tolerance_small: "\<bar>x\<bar> \<le> 5 \<Longrightarrow> (brentq_xtol + brentq_rtol * \<bar>x\<bar>) * 100 \<le> 1 / 100"
proof -
  assume "\<bar>x\<bar> \<le> 5"
  then have "brentq_rtol * \<bar>x\<bar> \<le> brentq_rtol * 5"
    by (intro mult_left_mono) (simp_all add: brentq_rtol_def)
  then show ?thesis by (simp add: brentq_xtol_def brentq_rtol_def)
qed

lemma call_round_trip:
  assumes c: "root_finder_contract brentq" and v: "0 < S" "0 < K" "0 < T"
    and s: "1 / 100 \<le> sigma" "sigma \<le> 5"
  shows "\<exists>v. implied_volatility_call brentq S K r T (spec_price_call S K r T sigma) sigma_est = Inr v
     \<and> \<bar>v - sigma * 100\<bar> \<le> 1 / 100"
proof -
  let ?p = "spec_price_call S K r T sigma"
  let ?g = "\<lambda>s. spec_price_call S K r T s - ?p"
  let ?f = "call_difference S K r T ?p"
  have pos: "0 < sigma" using s by simp
  have f: "?f x = Inr (?g x)" if "1 / 100 \<le> x" "x \<le> 5" for x
    using that by (intro call_difference_valid v) simp
  have cont: "continuous_on {1 / 100..5} ?g"
    by (rule spec_price_call_continuous[OF v]) simp
  have "?g (1 / 100) \<le> 0"
    using spec_price_call_mono[OF v _ s(1), of r] by simp
  moreover have "0 \<le> ?g 5"
    using spec_price_call_mono[OF v pos s(2), of r] by simp
  ultimately have sc: "?g (1 / 100) * ?g 5 \<le> 0"
    by (rule mult_nonpos_nonneg)
  from contract_converges[OF c _ f cont sc]
  obtain x x0 where r: "brentq ?f (1 / 100) 5 = Inr x" "1 / 100 \<le> x0" "x0 \<le> 5" "?g x0 = 0"
    "\<bar>x - x0\<bar> \<le> brentq_xtol + brentq_rtol * \<bar>x\<bar>" by auto
  have "0 < x0" using r(2) by simp
  from spec_price_call_inj[OF v this pos, of r] r(4) have x0: "x0 = sigma" by simp
  from contract_range[OF c _ r(1)] have "\<bar>x\<bar> \<le> 5" by simp
  from tolerance_small[OF this] r(5) have "\<bar>x - x0\<bar> * 100 \<le> 1 / 100"
    using mult_right_mono[of "\<bar>x - x0\<bar>" "brentq_xtol + brentq_rtol * \<bar>x\<bar>" 100] by linarith
  then have "\<bar>x * 100 - sigma * 100\<bar> \<le> 1 / 100"
    unfolding x0 by (simp add: abs_if split: if_splits)
  moreover have "implied_volatility_call brentq S K r T ?p sigma_est = Inr (x * 100)"
    using r(1) by (intro call_solver_success) simp
  ultimately show ?thesis by blast
qed

subsection \<open>Numerical bounds on the distribution function\<close>

text \<open>
  The distribution function is strictly increasing, and it stays strictly between \<open>0\<close> and
  \<open>1\<close> on \<open>[-13/5, 13/5]\<close>: the bound at \<open>13/5\<close> comes from fourteen terms of the series,
  a geometric bound on the rest, and \<open>\<pi> \<ge> 25/8\<close> from Machin's formula.
\<close>

lemma norm_cdf_strict_mono: "x < y \<Longrightarrow> norm_cdf x < norm_cdf y"
  by (rule DERIV_pos_imp_increasing) (use DERIV_norm_cdf norm_pdf_pos in blast)+













subsection \<open>Market prices outside the attainable range\<close>





lemma atm_call_positive:
  assumes "0 < sigma"
  shows "0 < spec_price_call 100 100 0 1 sigma"
proof -
  have d1: "spec_d1 100 100 0 1 sigma = sigma / 2"
    using assms by (simp add: spec_d1_def power2_eq_square)
  have d2: "spec_d2 100 100 0 1 sigma = - (sigma / 2)"
    unfolding spec_d2_def d1 by simp
  have "norm_cdf (- (sigma / 2)) < norm_cdf (sigma / 2)"
    by (rule norm_cdf_strict_mono) (use assms in simp)
  then show ?thesis
    unfolding spec_price_call_def d1 d2 by simp
qed

lemma atm_put_positive:
  assumes "0 < sigma"
  shows "0 < spec_price_put 100 100 0 1 sigma"
  using atm_call_positive[OF assms] spec_parity[of 100 100 0 1 sigma] by simp

section \<open>The claims\<close>

subsection \<open>Pricing\<close>

text \<open>
  Claim C1. For every \<open>S > 0\<close>, \<open>K > 0\<close>, \<open>T > 0\<close>, \<open>sigma > 0\<close> and any real \<open>r\<close>,
  \<open>black_scholes_call\<close> raises nothing and returns \<open>S \<Phi>(d1) - K e^(-rT) \<Phi>(d2)\<close>, where
  \<open>d1 = (ln (S/K) + (r + 0.5 sigma\<^sup>2) T) / (sigma sqrt T)\<close> and \<open>d2 = d1 - sigma sqrt T\<close>.
\<close>

theorem black_scholes_call_formula:
  assumes "0 < S" "0 < K" "0 < T" "0 < sigma"
  shows "black_scholes_call S K r T sigma =
     Inr (S * norm_cdf (spec_d1 S K r T sigma)
          - K * exp (- r * T) * norm_cdf (spec_d2 S K r T sigma))
   \<and> spec_d1 S K r T sigma = (ln (S / K) + (r + 0.5 * sigma ^ 2) * T) / (sigma * sqrt T)
   \<and> spec_d2 S K r T sigma = spec_d1 S K r T sigma - sigma * sqrt T"
  using black_scholes_call_valid[OF assms, of r]
  by (simp add: spec_price_call_def spec_d1_def spec_d2_def)

theorem black_scholes_call_formula_witness:
  "black_scholes_call 100 100 (1 / 20) 1 (1 / 5) =
     Inr (100 * norm_cdf (spec_d1 100 100 (1 / 20) 1 (1 / 5))
          - 100 * exp (- (1 / 20) * 1) * norm_cdf (spec_d2 100 100 (1 / 20) 1 (1 / 5)))
   \<and> spec_d1 100 100 (1 / 20) 1 (1 / 5) = 7 / 20
   \<and> spec_d2 100 100 (1 / 20) 1 (1 / 5) = 3 / 20"
  using black_scholes_call_formula[of 100 100 1 "1 / 5" "1 / 20"]
  by (simp add: power2_eq_square)

text \<open>
  Claim C2. Put-call parity: for every \<open>S > 0\<close>, \<open>K > 0\<close>, \<open>T > 0\<close>, \<open>sigma > 0\<close> and any
  real \<open>r\<close>, both prices are returned and the call price minus the put price equals
  \<open>S - K exp (- r T)\<close>, exactly in real arithmetic.
\<close>

theorem put_call_parity:
  assumes "0 < S" "0 < K" "0 < T" "0 < sigma"
  shows "\<exists>c p. black_scholes_call S K r T sigma = Inr c
     \<and> black_scholes_put S K r T sigma = Inr p
     \<and> c - p = S - K * exp (- r * T)"
  using black_scholes_call_valid[OF assms, of r] black_scholes_put_valid[OF assms, of r]
    spec_parity[of S K r T sigma]
  by blast

theorem put_call_parity_witness:
  "\<exists>c p. black_scholes_call 100 100 (1 / 20) 1 (1 / 5) = Inr c
     \<and> black_scholes_put 100 100 (1 / 20) 1 (1 / 5) = Inr p
     \<and> c - p = 100 - 100 * exp (- (1 / 20) * 1)"
  using put_call_parity[of 100 100 1 "1 / 5" "1 / 20"] by simp

subsection \<open>Greeks\<close>

text \<open>
  Claim C3. For every \<open>S\<close>, \<open>K\<close>, \<open>r\<close>, \<open>T\<close> and selector, \<open>calculate_theta_and_vega\<close>
  with \<open>sigma = 0\<close> returns \<open>(NaN, NaN)\<close>; for \<open>S > 0\<close>, \<open>K > 0\<close>, \<open>T > 0\<close>,
  \<open>sigma > 0\<close> it returns the pair of \<open>vega = S \<phi>(d1) sqrt T / 100\<close> and of
  \<open>theta = (- S \<phi>(d1) sigma / (2 sqrt T) - r K e^(-rT) \<Phi>(d2)) / 365\<close> for the selector \<open>c\<close>,
  \<open>theta = (- S \<phi>(-d1) sigma / (2 sqrt T) + r K e^(-rT) \<Phi>(-d2)) / 365\<close> for the selector \<open>p\<close>.
\<close>

theorem greeks_formulas:
  "calculate_theta_and_vega S K r T 0 opt_type = Inr (NaN, NaN)
   \<and> (0 < S \<and> 0 < K \<and> 0 < T \<and> 0 < sigma \<longrightarrow>
        calculate_theta_and_vega S K r T sigma ''c''
          = Inr (Float (spec_vega S K r T sigma), Float (spec_theta_call S K r T sigma))
      \<and> calculate_theta_and_vega S K r T sigma ''p''
          = Inr (Float (spec_vega S K r T sigma), Float (spec_theta_put S K r T sigma)))"
proof (intro conjI impI)
  show "calculate_theta_and_vega S K r T 0 opt_type = Inr (NaN, NaN)"
    by (rule greeks_zero_sigma)
next
  assume h: "0 < S \<and> 0 < K \<and> 0 < T \<and> 0 < sigma"
  then have v: "0 < S" "0 < K" "0 < T" "sigma \<noteq> 0" by simp_all
  show "calculate_theta_and_vega S K r T sigma ''c''
          = Inr (Float (spec_vega S K r T sigma), Float (spec_theta_call S K r T sigma))"
    by (simp add: greeks_d1[OF v] Let_def spec_vega_def spec_theta_call_def)
  show "calculate_theta_and_vega S K r T sigma ''p''
          = Inr (Float (spec_vega S K r T sigma), Float (spec_theta_put S K r T sigma))"
    by (simp add: greeks_d1[OF v] Let_def spec_vega_def spec_theta_put_def)
qed

theorem greeks_formulas_witness:
  "calculate_theta_and_vega 100 100 (1 / 20) 1 0 ''c'' = Inr (NaN, NaN)
   \<and> calculate_theta_and_vega 100 100 (1 / 20) 1 (1 / 5) ''c''
          = Inr (Float (spec_vega 100 100 (1 / 20) 1 (1 / 5)), Float (spec_theta_call 100 100 (1 / 20) 1 (1 / 5)))
   \<and> calculate_theta_and_vega 100 100 (1 / 20) 1 (1 / 5) ''p''
          = Inr (Float (spec_vega 100 100 (1 / 20) 1 (1 / 5)), Float (spec_theta_put 100 100 (1 / 20) 1 (1 / 5)))"
  using greeks_formulas[of 100 100 "1 / 20" 1 "''c''" "1 / 5"] by simp

text \<open>
  Claim C8, as stated: a selector other than \<open>c\<close> and \<open>p\<close> fails with an
  \<open>InvalidParameter\<close> error. The module has no such error: on valid market data the
  exception is \<open>UnboundLocalError\<close>, raised when the \<^verbatim>\<open>return\<close> statement reads \<^verbatim>\<open>theta\<close>.
\<close>

theorem invalid_selector_unbound_local:
  "calculate_theta_and_vega 100 100 (1 / 20) 1 (1 / 5) ''x'' = Inl UnboundLocalError"
  by (simp add: greeks_raise)

text \<open>
  Claim C8, amended. For every \<open>S\<close>, \<open>K\<close>, \<open>r\<close>, \<open>T\<close> and every \<open>sigma > 0\<close>, a call with a
  selector other than \<open>c\<close> and \<open>p\<close> raises an exception and returns no value, so it never
  defaults to one of the two variants; for \<open>S > 0\<close>, \<open>K > 0\<close>, \<open>T > 0\<close> the exception is
  \<open>UnboundLocalError\<close>.
\<close>

theorem invalid_selector_raises:
  assumes "opt_type \<noteq> ''c''" "opt_type \<noteq> ''p''" "0 < sigma"
  shows "(\<exists>e. calculate_theta_and_vega S K r T sigma opt_type = Inl e)
    \<and> (0 < S \<and> 0 < K \<and> 0 < T \<longrightarrow>
         calculate_theta_and_vega S K r T sigma opt_type = Inl UnboundLocalError)"
proof -
  have "sigma \<noteq> 0" using assms by simp
  from greeks_raise[OF assms(1,2) this, of S K r T] show ?thesis
    by (auto simp: divide_le_0_iff)
qed

theorem invalid_selector_raises_witness:
  "(\<exists>e. calculate_theta_and_vega 100 100 (1 / 20) 1 (1 / 5) ''call'' = Inl e)
    \<and> calculate_theta_and_vega 100 100 (1 / 20) 1 (1 / 5) ''call'' = Inl UnboundLocalError"
  using invalid_selector_raises[of "''call''" "1 / 5" 100 100 "1 / 20" 1] by simp

subsection \<open>Implied volatility\<close>

text \<open>
  Claim C9. The parameter \<open>sigma_est\<close> is dead: for every root finder, every \<open>S\<close>, \<open>K\<close>,
  \<open>r\<close>, \<open>T\<close>, market price and any two values of \<open>sigma_est\<close>, each of the two solvers
  returns the same result.
\<close>

theorem sigma_est_noninterference:
  "implied_volatility_call brentq S K r T market_price e1
     = implied_volatility_call brentq S K r T market_price e2
   \<and> implied_volatility_put brentq S K r T market_price e1
     = implied_volatility_put brentq S K r T market_price e2"
  by (simp add: implied_volatility_call_def implied_volatility_put_def)

text \<open>
  Claim C4. With a root finder that meets the contract, for every \<open>S\<close>, \<open>K\<close>, \<open>r\<close>, \<open>T\<close>
  and market price: when the objective has the same strict sign at both ends of the bracket
  \<open>[0.01, 5.0]\<close> (no sign change), or when the search raises any exception at all,
  \<open>implied_volatility_call\<close> returns \<open>0\<close> and raises nothing; the same holds for
  \<open>implied_volatility_put\<close>.
\<close>

theorem solver_failure_returns_zero:
  assumes "root_finder_contract brentq"
  shows "((\<exists>fa fb. call_difference S K r T market_price 0.01 = Inr fa
            \<and> call_difference S K r T market_price 5 = Inr fb \<and> 0 < fa * fb)
          \<or> (\<exists>e. brentq (call_difference S K r T market_price) 0.01 5 = Inl e)
        \<longrightarrow> implied_volatility_call brentq S K r T market_price sigma_est = Inr 0)
     \<and> ((\<exists>fa fb. put_difference S K r T market_price 0.01 = Inr fa
            \<and> put_difference S K r T market_price 5 = Inr fb \<and> 0 < fa * fb)
          \<or> (\<exists>e. brentq (put_difference S K r T market_price) 0.01 5 = Inl e)
        \<longrightarrow> implied_volatility_put brentq S K r T market_price sigma_est = Inr 0)"
  using contract_sign_error[OF assms, of "call_difference S K r T market_price" "0.01" _ 5]
    contract_sign_error[OF assms, of "put_difference S K r T market_price" "0.01" _ 5]
    call_solver_failure[of brentq S K r T market_price _ sigma_est]
    put_solver_failure[of brentq S K r T market_price _ sigma_est]
  by blast

theorem solver_failure_returns_zero_witness:
  "implied_volatility_call bisection_root_finder 100 100 0 1 0 (1 / 4) = Inr 0
   \<and> implied_volatility_put bisection_root_finder 100 100 0 1 0 (1 / 4) = Inr 0"
proof -
  have c: "call_difference 100 100 0 1 0 sigma = Inr (spec_price_call 100 100 0 1 sigma)"
    if "0 < sigma" for sigma
    using call_difference_valid[of 100 100 1 sigma 0 0] that by simp
  have p: "put_difference 100 100 0 1 0 sigma = Inr (spec_price_put 100 100 0 1 sigma)"
    if "0 < sigma" for sigma
    using put_difference_valid[of 100 100 1 sigma 0 0] that by simp
  have "0 < spec_price_call 100 100 0 1 0.01 * spec_price_call 100 100 0 1 5"
    by (intro mult_pos_pos atm_call_positive) simp_all
  moreover have "0 < spec_price_put 100 100 0 1 0.01 * spec_price_put 100 100 0 1 5"
    by (intro mult_pos_pos atm_put_positive) simp_all
  ultimately show ?thesis
    using solver_failure_returns_zero[OF bisection_meets_contract, of 100 100 0 1 0 "1 / 4"]
      c[of "0.01"] c[of 5] p[of "0.01"] p[of 5]
    by simp
qed




text \<open>
  Claim C6. Round trip: with a root finder that meets the contract and \<open>p\<close> the call price
  at \<open>S = 100\<close>, \<open>K = 100\<close>, \<open>r = 0.05\<close>, \<open>T = 1\<close>, \<open>sigma = 0.2\<close>, the call
  \<open>implied_volatility_call\<close> on \<open>p\<close> returns a value within \<open>0.01\<close> of \<open>20\<close>.
\<close>

theorem call_round_trip_20:
  assumes "root_finder_contract brentq" "black_scholes_call 100 100 (1 / 20) 1 (1 / 5) = Inr p"
  shows "\<exists>v. implied_volatility_call brentq 100 100 (1 / 20) 1 p sigma_est = Inr v
     \<and> \<bar>v - 20\<bar> \<le> 1 / 100"
proof -
  have "p = spec_price_call 100 100 (1 / 20) 1 (1 / 5)"
    using assms(2) black_scholes_call_valid[of 100 100 1 "1 / 5" "1 / 20"] by simp
  with call_round_trip[OF assms(1), of 100 100 1 "1 / 5" "1 / 20" sigma_est] show ?thesis by simp
qed

theorem call_round_trip_20_witness:
  "\<exists>p v. black_scholes_call 100 100 (1 / 20) 1 (1 / 5) = Inr p
     \<and> implied_volatility_call bisection_root_finder 100 100 (1 / 20) 1 p (1 / 4) = Inr v
     \<and> \<bar>v - 20\<bar> \<le> 1 / 100"
  using call_round_trip_20[OF bisection_meets_contract, of _ "1 / 4"]
    black_scholes_call_valid[of 100 100 1 "1 / 5" "1 / 20"]
  by simp

text \<open>
  Claim C10. With a root finder that meets the contract, for every input each solver
  returns a value that is either \<open>0\<close> or lies in \<open>[1, 500]\<close>; a non-zero value is \<open>100\<close>
  times the value the root finder returned, so it signals a successful search.
\<close>

theorem solver_result_range:
  assumes "root_finder_contract brentq"
  shows "(\<exists>v. implied_volatility_call brentq S K r T market_price sigma_est = Inr v
          \<and> (v = 0 \<or> 1 \<le> v \<and> v \<le> 500)
          \<and> (v \<noteq> 0 \<longrightarrow> (\<exists>x. brentq (call_difference S K r T market_price) 0.01 5 = Inr x \<and> v = x * 100)))
     \<and> (\<exists>v. implied_volatility_put brentq S K r T market_price sigma_est = Inr v
          \<and> (v = 0 \<or> 1 \<le> v \<and> v \<le> 500)
          \<and> (v \<noteq> 0 \<longrightarrow> (\<exists>x. brentq (put_difference S K r T market_price) 0.01 5 = Inr x \<and> v = x * 100)))"
proof (intro conjI)
  show "\<exists>v. implied_volatility_call brentq S K r T market_price sigma_est = Inr v
          \<and> (v = 0 \<or> 1 \<le> v \<and> v \<le> 500)
          \<and> (v \<noteq> 0 \<longrightarrow> (\<exists>x. brentq (call_difference S K r T market_price) 0.01 5 = Inr x \<and> v = x * 100))"
  proof (cases "brentq (call_difference S K r T market_price) 0.01 5")
    case (Inl e)
    from call_solver_failure[of brentq S K r T market_price, OF this] show ?thesis by simp
  next
    case (Inr x)
    from contract_range[OF assms _ this] have "1 \<le> x * 100" "x * 100 \<le> 500" by simp_all
    with call_solver_success[of brentq S K r T market_price, OF Inr] Inr show ?thesis by simp
  qed
  show "\<exists>v. implied_volatility_put brentq S K r T market_price sigma_est = Inr v
          \<and> (v = 0 \<or> 1 \<le> v \<and> v \<le> 500)
          \<and> (v \<noteq> 0 \<longrightarrow> (\<exists>x. brentq (put_difference S K r T market_price) 0.01 5 = Inr x \<and> v = x * 100))"
  proof (cases "brentq (put_difference S K r T market_price) 0.01 5")
    case (Inl e)
    from put_solver_failure[of brentq S K r T market_price, OF this] show ?thesis by simp
  next
    case (Inr x)
    from contract_range[OF assms _ this] have "1 \<le> x * 100" "x * 100 \<le> 500" by simp_all
    with put_solver_success[of brentq S K r T market_price, OF Inr] Inr show ?thesis by simp
  qed
qed

theorem solver_result_range_witness:
  "(\<exists>v. implied_volatility_call bisection_root_finder 100 100 (1 / 20) 1 10 (1 / 4) = Inr v
          \<and> (v = 0 \<or> 1 \<le> v \<and> v \<le> 500))
     \<and> (\<exists>v. implied_volatility_put bisection_root_finder 100 100 (1 / 20) 1 10 (1 / 4) = Inr v
          \<and> (v = 0 \<or> 1 \<le> v \<and> v \<le> 500))"
  using solver_result_range[OF bisection_meets_contract, of 100 100 "1 / 20" 1 10 "1 / 4"]
  by blast

end
